theory Spec2Isabelle
  imports Main "HOL-Library.Sublist"
begin

section \<open>The offline-caching service worker (service-worker.js)\<close>

text \<open>
  \<^verbatim>\<open>src/service-worker.js\<close> holds two versions of the worker: the first one
  (cache \<^verbatim>\<open>zombie-survivor-v1\<close>, lines 1 to 89) and the second one (caches
  \<^verbatim>\<open>zombie-static-v2.0\<close> and \<^verbatim>\<open>zombie-dynamic-v2.0\<close>, lines 90 to 345).
  Each listener becomes a function from the event, the outcome of the platform calls it
  makes, and the cache store, to what the page observes and the new cache store.
\<close>

subsection \<open>JavaScript strings\<close>

text \<open>
  \<^verbatim>\<open>s.includes(sub)\<close>: \<open>sub\<close> occurs in \<open>s\<close> as a contiguous run of characters.
  The empty string occurs in every string.
\<close>

fun str_includes :: "string \<Rightarrow> string \<Rightarrow> bool" where
  "str_includes [] sub = (sub = [])"
| "str_includes (c # cs) sub = (prefix sub (c # cs) \<or> str_includes cs sub)"

text \<open>
  \<^verbatim>\<open>s.split(sep)\<close> for a one-character separator: the pieces between the separators,
  never an empty array (\<^verbatim>\<open>''.split('/')\<close> is \<^verbatim>\<open>['']\<close>, \<^verbatim>\<open>'/'.split('/')\<close> is
  \<^verbatim>\<open>['', '']\<close>).
\<close>

fun split_str :: "char \<Rightarrow> string \<Rightarrow> string list" where
  "split_str sep [] = [[]]"
| "split_str sep (c # cs) =
     (if c = sep then [] # split_str sep cs
      else (case split_str sep cs of
              [] \<Rightarrow> [[c]]
            | w # ws \<Rightarrow> (c # w) # ws))"

text \<open>\<^verbatim>\<open>file.split('/').pop()\<close>: the last piece (the array is never empty).\<close>

definition basename :: "string \<Rightarrow> string" where
  "basename file = last (split_str CHR ''/'' file)"

text \<open>
  \<^verbatim>\<open>new URL(event.request.url)\<close>: a request's \<^verbatim>\<open>url\<close> is an absolute, serialised
  URL, so the constructor does not throw and \<^verbatim>\<open>href\<close> is that string;
  \<^verbatim>\<open>protocol\<close> is the scheme with its colon.
\<close>

definition protocol_of :: "string \<Rightarrow> string" where
  "protocol_of href = takeWhile (\<lambda>c. c \<noteq> CHR '':'') href @ '':''"

subsection \<open>Requests, responses and the cache store\<close>

text \<open>
  Of a request the listeners read the URL and the \<^verbatim>\<open>accept\<close> header
  (\<^verbatim>\<open>headers.get\<close> gives \<^verbatim>\<open>null\<close> when the header is absent); the
  platform's cache also looks at its method. A response lists its headers with their
  names in lower case, as a \<^verbatim>\<open>Headers\<close> object does.
\<close>

record request =
  url :: string
  "method" :: string
  accept :: "string option"

record response =
  status :: nat
  statusText :: string
  body :: string
  headers :: "(string \<times> string) list"
  resp_type :: string

text \<open>\<^verbatim>\<open>fetch(event.request)\<close> either rejects or fulfils with a response.\<close>

datatype fetch_result = NetworkError | Fulfilled response

text \<open>
  The platform's cache storage: the named caches in creation order (the order of
  \<^verbatim>\<open>caches.keys()\<close> and of the search of \<^verbatim>\<open>caches.match\<close>), each one the
  entries it holds, keyed by request URL. The storage is taken to have room for a
  write.
\<close>

type_synonym bucket = "(string \<times> response) list"
type_synonym cache_store = "(string \<times> bucket) list"

definition caches_keys :: "cache_store \<Rightarrow> string list" where
  "caches_keys s = map fst s"

text \<open>
  \<^verbatim>\<open>caches.match(url)\<close> with a URL string (\<^verbatim>\<open>'/'\<close>, \<^verbatim>\<open>'/index.html'\<close>): the
  first entry for the key, over all caches in order.
\<close>

fun match_url :: "string \<Rightarrow> cache_store \<Rightarrow> response option" where
  "match_url k [] = None"
| "match_url k ((n, b) # s) =
     (case map_of b k of
        Some r \<Rightarrow> Some r
      | None \<Rightarrow> match_url k s)"

text \<open>
  \<^verbatim>\<open>caches.match(event.request)\<close>: the same search under the request's URL; for a
  request whose method is not \<^verbatim>\<open>GET\<close> the platform finds nothing.
\<close>

definition caches_match :: "request \<Rightarrow> cache_store \<Rightarrow> response option" where
  "caches_match req s = (if method req = ''GET'' then match_url (url req) s else None)"

text \<open>\<^verbatim>\<open>cache.put(request, response)\<close> replaces the entry of the key.\<close>

definition bucket_put :: "string \<Rightarrow> response \<Rightarrow> bucket \<Rightarrow> bucket" where
  "bucket_put k r b = filter (\<lambda>e. fst e \<noteq> k) b @ [(k, r)]"

text \<open>The store after a \<^verbatim>\<open>put\<close> that the platform accepted, into the cache \<open>name\<close>.\<close>

fun cache_put :: "string \<Rightarrow> string \<Rightarrow> response \<Rightarrow> cache_store \<Rightarrow> cache_store" where
  "cache_put name k r [] = [(name, [(k, r)])]"
| "cache_put name k r ((n, b) # s) =
     (if n = name then (n, bucket_put k r b) # s
      else (n, b) # cache_put name k r s)"

text \<open>\<^verbatim>\<open>caches.open(name)\<close> creates the cache, empty, when no cache has the name.\<close>

definition cache_open :: "string \<Rightarrow> cache_store \<Rightarrow> cache_store" where
  "cache_open name s = (if name \<in> set (caches_keys s) then s else s @ [(name, [])])"

text \<open>
  The platform rejects \<^verbatim>\<open>cache.put(request, response)\<close> with a \<^verbatim>\<open>TypeError\<close>
  when the request's method is not \<^verbatim>\<open>GET\<close>, when its URL is not an
  \<^verbatim>\<open>http:\<close> or \<^verbatim>\<open>https:\<close> one, when the response's status is 206, or when the
  response has a \<^verbatim>\<open>Vary\<close> header with the field \<^verbatim>\<open>*\<close>.
\<close>

definition is_space :: "char \<Rightarrow> bool" where
  "is_space c = (c = CHR '' '' \<or> c = CHR 0x09)"

definition trim :: "string \<Rightarrow> string" where
  "trim v = rev (dropWhile is_space (rev (dropWhile is_space v)))"

definition vary_star :: "response \<Rightarrow> bool" where
  "vary_star resp =
     list_ex (\<lambda>h. fst h = ''vary'' \<and> list_ex (\<lambda>v. trim v = ''*'') (split_str CHR '','' (snd h)))
       (headers resp)"

definition put_accepted :: "request \<Rightarrow> response \<Rightarrow> bool" where
  "put_accepted req resp =
     (method req = ''GET''
      \<and> (protocol_of (url req) = ''http:'' \<or> protocol_of (url req) = ''https:'')
      \<and> status resp \<noteq> 206
      \<and> \<not> vary_star resp)"

text \<open>
  \<^verbatim>\<open>caches.open(name).then(cache => cache.put(event.request, responseClone))\<close>, which
  no listener waits for: the cache is opened, and the entry is written when the platform
  accepts the \<^verbatim>\<open>put\<close>. A rejected \<^verbatim>\<open>put\<close> writes nothing, and nothing
  observes the rejection.
\<close>

definition open_put :: "string \<Rightarrow> request \<Rightarrow> response \<Rightarrow> cache_store \<Rightarrow> cache_store" where
  "open_put name req resp s =
     (if put_accepted req resp then cache_put name (url req) resp s else cache_open name s)"

text \<open>The entry a named cache holds for a key.\<close>

definition cache_entry :: "string \<Rightarrow> string \<Rightarrow> cache_store \<Rightarrow> response option" where
  "cache_entry name k s =
     (case map_of s name of
        None \<Rightarrow> None
      | Some b \<Rightarrow> map_of b k)"

text \<open>\<^verbatim>\<open>caches.delete(name)\<close>, when it fulfils: the cache of that name is gone.\<close>

definition caches_delete :: "string \<Rightarrow> cache_store \<Rightarrow> cache_store" where
  "caches_delete name s = filter (\<lambda>e. fst e \<noteq> name) s"

subsection \<open>The second version: constants (lines 91 to 111)\<close>

definition STATIC_CACHE :: string where
  "STATIC_CACHE = ''zombie-static-v2.0''"

definition DYNAMIC_CACHE :: string where
  "DYNAMIC_CACHE = ''zombie-dynamic-v2.0''"

definition STATIC_FILES :: "string list" where
  "STATIC_FILES =
     [''/'',
      ''/index.html'',
      ''/manifest.json'',
      ''/logozombie.png'',
      ''https://cdn.tailwindcss.com'',
      ''https://fonts.googleapis.com/css2?family=Orbitron:wght@400;900&family=Inter:wght@400;500;700&display=swap'',
      ''https://cdn-icons-png.flaticon.com/512/3408/3408545.png'',
      ''https://cdn-icons-png.flaticon.com/512/4140/4140037.png'',
      ''https://cdn-icons-png.flaticon.com/512/1154/1154443.png'',
      ''https://cdn-icons-png.flaticon.com/512/606/606553.png'',
      ''https://cdn-icons-png.flaticon.com/512/2966/2966327.png'',
      ''https://cdn-icons-png.flaticon.com/512/2590/2590525.png'',
      ''https://cdn-icons-png.flaticon.com/512/1066/1066744.png'',
      ''https://cdn-icons-png.flaticon.com/512/1067/1067357.png'']"

subsection \<open>The second version: the fetch listener (lines 164 to 263)\<close>

text \<open>
  The routing tests of the listener, in its order: the WebSocket protocols (line 168),
  \<^verbatim>\<open>firebase\<close> or \<^verbatim>\<open>googleapis\<close> in the URL (line 173), then
  \<^verbatim>\<open>STATIC_FILES.some(file => url.href.includes(file.split('/').pop()))\<close> (line 196),
  with the list of static files as a parameter.
\<close>

datatype strategy = Passthrough | NetworkFirstApi | CacheFirst | NetworkFirstDefault

definition static_match :: "string list \<Rightarrow> string \<Rightarrow> bool" where
  "static_match files href = list_ex (\<lambda>file. str_includes href (basename file)) files"

definition classify :: "string list \<Rightarrow> request \<Rightarrow> strategy" where
  "classify files req =
     (if protocol_of (url req) = ''ws:'' \<or> protocol_of (url req) = ''wss:'' then Passthrough
      else if str_includes (url req) ''firebase'' \<or> str_includes (url req) ''googleapis''
        then NetworkFirstApi
      else if static_match files (url req) then CacheFirst
      else NetworkFirstDefault)"

text \<open>
  What the page gets for the request: the listener returned without
  \<^verbatim>\<open>respondWith\<close>; the promise passed to \<^verbatim>\<open>respondWith\<close> fulfilled with a
  response; it fulfilled with \<^verbatim>\<open>undefined\<close> (the page sees a network error); or it
  rejected.
\<close>

datatype outcome = NotIntercepted | Responded response | RespondedUndefined | Rejected

text \<open>
  The two synthesised responses of lines 252 to 259. The second one is built from a
  string body and no headers, so the platform gives it the content type of text.
\<close>

definition offline_page :: response where
  "offline_page =
     \<lparr>status = 200, statusText = [],
      body = ''<h1>Zombie Survivor - Modo Offline</h1><p>No hay conexi'' @ [CHR 0xF3]
               @ ''n a internet.</p>'',
      headers = [(''content-type'', ''text/html'')],
      resp_type = ''default''\<rparr>"

definition offline_error :: response where
  "offline_error =
     \<lparr>status = 408, statusText = ''Offline'', body = [],
      headers = [(''content-type'', ''text/plain;charset=UTF-8'')],
      resp_type = ''default''\<rparr>"

text \<open>Lines 174 to 191: Firebase and the Google APIs, network first.\<close>

definition network_first_api ::
  "request \<Rightarrow> fetch_result \<Rightarrow> cache_store \<Rightarrow> outcome \<times> cache_store" where
  "network_first_api req net s =
     (case net of
        Fulfilled resp \<Rightarrow>
          (Responded resp,
           if status resp = 200 then open_put DYNAMIC_CACHE req resp s else s)
      | NetworkError \<Rightarrow>
          (case caches_match req s of
             Some cached \<Rightarrow> (Responded cached, s)
           | None \<Rightarrow> (RespondedUndefined, s)))"

text \<open>
  Lines 197 to 223: cache first. On a hit the network is not asked; the
  \<^verbatim>\<open>catch\<close> of line 218 logs and returns nothing.
\<close>

definition cache_first ::
  "request \<Rightarrow> fetch_result \<Rightarrow> cache_store \<Rightarrow> outcome \<times> cache_store" where
  "cache_first req net s =
     (case caches_match req s of
        Some cached \<Rightarrow> (Responded cached, s)
      | None \<Rightarrow>
          (case net of
             Fulfilled resp \<Rightarrow>
               (if status resp \<noteq> 200 then (Responded resp, s)
                else (Responded resp, open_put STATIC_CACHE req resp s))
           | NetworkError \<Rightarrow> (RespondedUndefined, s)))"

text \<open>
  Lines 228 to 262: every other request, network first. \<open>origin\<close> is the worker's
  origin, against which \<^verbatim>\<open>caches.match('/')\<close> resolves its key. With no
  \<^verbatim>\<open>accept\<close> header, \<^verbatim>\<open>headers.get('accept').includes\<close> throws and the promise
  rejects.
\<close>

definition network_first ::
  "string \<Rightarrow> request \<Rightarrow> fetch_result \<Rightarrow> cache_store \<Rightarrow> outcome \<times> cache_store" where
  "network_first origin req net s =
     (case net of
        Fulfilled resp \<Rightarrow>
          (Responded resp,
           if status resp = 200 then open_put DYNAMIC_CACHE req resp s else s)
      | NetworkError \<Rightarrow>
          (case caches_match req s of
             Some cached \<Rightarrow> (Responded cached, s)
           | None \<Rightarrow>
               (case accept req of
                  None \<Rightarrow> (Rejected, s)
                | Some a \<Rightarrow>
                    (if str_includes a ''text/html'' then
                       (case match_url (origin @ ''/'') s of
                          Some homePage \<Rightarrow> (Responded homePage, s)
                        | None \<Rightarrow> (Responded offline_page, s))
                     else (Responded offline_error, s)))))"

definition fetch_with ::
  "string list \<Rightarrow> string \<Rightarrow> request \<Rightarrow> fetch_result \<Rightarrow> cache_store \<Rightarrow> outcome \<times> cache_store" where
  "fetch_with files origin req net s =
     (case classify files req of
        Passthrough \<Rightarrow> (NotIntercepted, s)
      | NetworkFirstApi \<Rightarrow> network_first_api req net s
      | CacheFirst \<Rightarrow> cache_first req net s
      | NetworkFirstDefault \<Rightarrow> network_first origin req net s)"

text \<open>The listener as registered: the list is the worker's own \<^verbatim>\<open>STATIC_FILES\<close>.\<close>

definition on_fetch ::
  "string \<Rightarrow> request \<Rightarrow> fetch_result \<Rightarrow> cache_store \<Rightarrow> outcome \<times> cache_store" where
  "on_fetch = fetch_with STATIC_FILES"

subsection \<open>The second version: activation (lines 141 to 161)\<close>

text \<open>
  \<^verbatim>\<open>caches.delete(name)\<close> either fulfils, and the cache is gone, or rejects, and the
  cache stays. \<open>rejecting\<close> lists the names whose deletion rejects. The listener
  starts every deletion before it waits for any (\<^verbatim>\<open>cacheNames.map\<close>), so one
  rejection stops no other deletion.
\<close>

fun delete_each :: "string list \<Rightarrow> string list \<Rightarrow> cache_store \<Rightarrow> cache_store" where
  "delete_each rejecting [] s = s"
| "delete_each rejecting (n # ns) s =
     delete_each rejecting ns (if n \<in> set rejecting then s else caches_delete n s)"

text \<open>\<^verbatim>\<open>Promise.all\<close> of the deletions fulfils when none of them rejects.\<close>

definition all_fulfil :: "string list \<Rightarrow> string list \<Rightarrow> bool" where
  "all_fulfil rejecting names = list_all (\<lambda>n. n \<notin> set rejecting) names"

text \<open>The names the listener deletes (line 149): those of neither current cache.\<close>

definition prune :: "string list \<Rightarrow> string list" where
  "prune cacheNames = filter (\<lambda>n. n \<noteq> STATIC_CACHE \<and> n \<noteq> DYNAMIC_CACHE) cacheNames"

text \<open>
  The listener: whether \<^verbatim>\<open>self.clients.claim()\<close> was reached (the \<^verbatim>\<open>then\<close> of
  line 156 runs only when \<^verbatim>\<open>Promise.all\<close> fulfilled), and the cache store.
\<close>

definition on_activate :: "string list \<Rightarrow> cache_store \<Rightarrow> bool \<times> cache_store" where
  "on_activate rejecting s =
     (all_fulfil rejecting (prune (caches_keys s)),
      delete_each rejecting (prune (caches_keys s)) s)"

subsection \<open>The second version: the message listener (lines 266 to 289)\<close>

text \<open>
  \<open>msg_type\<close> is \<^verbatim>\<open>event.data && event.data.type\<close> (\<open>None\<close> when there is none),
  \<open>has_port\<close> says whether \<^verbatim>\<open>event.ports[0]\<close> exists. The three tests of the
  listener exclude each other, so they are one chain here.
\<close>

record message =
  msg_type :: "string option"
  has_port :: bool

datatype reply = CACHE_INFO "string list" | CACHE_CLEARED

text \<open>
  What the page observes: nothing, \<^verbatim>\<open>self.skipWaiting()\<close>, a message posted on the
  port, or no message because the promise chain rejected (a deletion rejected, or
  \<^verbatim>\<open>event.ports[0]\<close> is \<^verbatim>\<open>undefined\<close>).
\<close>

datatype msg_outcome = Nothing | SkipWaiting | Posted reply | Unhandled

definition on_message :: "string list \<Rightarrow> message \<Rightarrow> cache_store \<Rightarrow> msg_outcome \<times> cache_store" where
  "on_message rejecting msg s =
     (if msg_type msg = Some ''SKIP_WAITING'' then (SkipWaiting, s)
      else if msg_type msg = Some ''GET_CACHE_INFO'' then
        (if has_port msg then Posted (CACHE_INFO (caches_keys s)) else Unhandled, s)
      else if msg_type msg = Some ''CLEAR_CACHE'' then
        (if all_fulfil rejecting (caches_keys s) \<and> has_port msg then Posted CACHE_CLEARED
         else Unhandled,
         delete_each rejecting (caches_keys s) s)
      else (Nothing, s))"

subsection \<open>The first version: the fetch listener (lines 45 to 82)\<close>

definition CACHE_NAME_v1 :: string where
  "CACHE_NAME_v1 = ''zombie-survivor-v1''"

definition fetch_v1 ::
  "string \<Rightarrow> request \<Rightarrow> fetch_result \<Rightarrow> cache_store \<Rightarrow> outcome \<times> cache_store" where
  "fetch_v1 origin req net s =
     (if str_includes (url req) ''firebase'' \<or> str_includes (url req) ''.mp4''
         \<or> str_includes (url req) ''.mp3''
      then (NotIntercepted, s)
      else
        (case caches_match req s of
           Some cached \<Rightarrow> (Responded cached, s)
         | None \<Rightarrow>
             (case net of
                Fulfilled resp \<Rightarrow>
                  (if status resp \<noteq> 200 \<or> resp_type resp \<noteq> ''basic'' then (Responded resp, s)
                   else (Responded resp, open_put CACHE_NAME_v1 req resp s))
              | NetworkError \<Rightarrow>
                  (case accept req of
                     None \<Rightarrow> (Rejected, s)
                   | Some a \<Rightarrow>
                       (if str_includes a ''text/html'' then
                          (case match_url (origin @ ''/index.html'') s of
                             Some page \<Rightarrow> (Responded page, s)
                           | None \<Rightarrow> (RespondedUndefined, s))
                        else (RespondedUndefined, s))))))"

subsection \<open>The states of the second version after activation\<close>

text \<open>
  A cache store is reachable when an activation that claimed the clients left it, or
  a fetch or message event handled in a reachable store left it.
\<close>

inductive reachable :: "cache_store \<Rightarrow> bool" where
  activated: "on_activate rejecting s0 = (True, s) \<Longrightarrow> reachable s"
| fetched: "reachable s \<Longrightarrow> on_fetch origin req net s = (out, s') \<Longrightarrow> reachable s'"
| messaged: "reachable s \<Longrightarrow> on_message rejecting msg s = (mout, s') \<Longrightarrow> reachable s'"

section \<open>Strings\<close>

lemma str_includes_iff: "str_includes s sub \<longleftrightarrow> (\<exists>p q. s = p @ sub @ q)"
proof (induction s)
  case Nil
  show ?case by auto
next
  case (Cons c cs)
  show ?case
  proof
    assume "str_includes (c # cs) sub"
    then consider "prefix sub (c # cs)" | "str_includes cs sub" by auto
    then show "\<exists>p q. c # cs = p @ sub @ q"
    proof cases
      case 1
      then obtain q where "c # cs = sub @ q" by (auto simp: prefix_def)
      then have "c # cs = [] @ sub @ q" by simp
      then show ?thesis by blast
    next
      case 2
      with Cons.IH obtain p q where "cs = p @ sub @ q" by blast
      then have "c # cs = (c # p) @ sub @ q" by simp
      then show ?thesis by blast
    qed
  next
    assume "\<exists>p q. c # cs = p @ sub @ q"
    then obtain p q where pq: "c # cs = p @ sub @ q" by blast
    show "str_includes (c # cs) sub"
    proof (cases p)
      case Nil
      with pq have "prefix sub (c # cs)" by (simp add: prefix_def)
      then show ?thesis by simp
    next
      case (Cons a p')
      with pq have "cs = p' @ sub @ q" by simp
      with Cons.IH have "str_includes cs sub" by blast
      then show ?thesis by simp
    qed
  qed
qed

lemma str_includes_empty: "str_includes s []"
  by (induction s) auto

lemma split_str_not_Nil: "split_str sep s \<noteq> []"
  by (induction s) (auto split: list.splits)

lemma basename_root: "basename ''/'' = []"
  by (simp add: basename_def)

lemma suffix_str_includes: "suffix sub s \<Longrightarrow> str_includes s sub"
proof -
  assume "suffix sub s"
  then obtain p where "s = p @ sub" by (auto simp: suffix_def)
  then have "s = p @ sub @ []" by simp
  then show ?thesis unfolding str_includes_iff by blast
qed

section \<open>The routing tests\<close>

lemma static_match_iff:
  "static_match files href \<longleftrightarrow> (\<exists>file \<in> set files. \<exists>p q. href = p @ basename file @ q)"
  by (simp add: static_match_def list_ex_iff str_includes_iff)

lemma static_match_STATIC_FILES: "static_match STATIC_FILES href"
  by (simp add: static_match_def STATIC_FILES_def basename_root str_includes_empty)

lemma classify_cache_first_iff:
  assumes "protocol_of (url req) \<noteq> ''ws:''" and "protocol_of (url req) \<noteq> ''wss:''"
    and "\<not> str_includes (url req) ''firebase''" and "\<not> str_includes (url req) ''googleapis''"
  shows "classify files req = CacheFirst \<longleftrightarrow>
           (\<exists>file \<in> set files. \<exists>p q. url req = p @ basename file @ q)"
  using assms by (simp add: classify_def static_match_iff)





text \<open>
  C3: \<^verbatim>\<open>STATIC_FILES\<close> contains \<^verbatim>\<open>'/'\<close>, whose basename is the empty string, so
  the static-file test holds for every URL. Every request that is not \<^verbatim>\<open>ws:\<close> or
  \<^verbatim>\<open>wss:\<close> and whose URL contains neither \<^verbatim>\<open>firebase\<close> nor
  \<^verbatim>\<open>googleapis\<close> is handled by the cache-first branch, and the listener never
  reaches its last, network-first branch.
\<close>

theorem default_branch_unreachable:
  "basename ''/'' = [] \<and> ''/'' \<in> set STATIC_FILES
   \<and> static_match STATIC_FILES href
   \<and> classify STATIC_FILES req \<noteq> NetworkFirstDefault
   \<and> (protocol_of (url req) \<noteq> ''ws:'' \<and> protocol_of (url req) \<noteq> ''wss:''
        \<and> \<not> str_includes (url req) ''firebase'' \<and> \<not> str_includes (url req) ''googleapis''
      \<longrightarrow> classify STATIC_FILES req = CacheFirst
          \<and> on_fetch origin req net s = cache_first req net s)"
proof -
  have a: "basename ''/'' = []" by (rule basename_root)
  have b: "''/'' \<in> set STATIC_FILES" by (simp add: STATIC_FILES_def)
  have c: "static_match STATIC_FILES h" for h by (rule static_match_STATIC_FILES)
  have d: "classify STATIC_FILES req \<noteq> NetworkFirstDefault"
    by (simp add: classify_def c)
  have e: "classify STATIC_FILES req = CacheFirst
          \<and> on_fetch origin req net s = cache_first req net s"
    if "protocol_of (url req) \<noteq> ''ws:''" "protocol_of (url req) \<noteq> ''wss:''"
      "\<not> str_includes (url req) ''firebase''" "\<not> str_includes (url req) ''googleapis''"
    using that by (simp add: classify_def c on_fetch_def fetch_with_def)
  from a b c d e show ?thesis by blast
qed

theorem default_branch_unreachable_witness:
  "protocol_of ''https://zombie.example/api/score'' \<noteq> ''ws:''
   \<and> protocol_of ''https://zombie.example/api/score'' \<noteq> ''wss:''
   \<and> \<not> str_includes ''https://zombie.example/api/score'' ''firebase''
   \<and> \<not> str_includes ''https://zombie.example/api/score'' ''googleapis''
   \<and> classify STATIC_FILES
        \<lparr>url = ''https://zombie.example/api/score'', method = ''GET'', accept = Some ''application/json''\<rparr>
       = CacheFirst
   \<and> on_fetch ''https://zombie.example''
        \<lparr>url = ''https://zombie.example/api/score'', method = ''GET'', accept = Some ''application/json''\<rparr>
        NetworkError []
       = (RespondedUndefined, [])"
proof -
  let ?req = "\<lparr>url = ''https://zombie.example/api/score'', method = ''GET'', accept = Some ''application/json''\<rparr>"
  have h: "protocol_of (url ?req) \<noteq> ''ws:'' \<and> protocol_of (url ?req) \<noteq> ''wss:''
        \<and> \<not> str_includes (url ?req) ''firebase'' \<and> \<not> str_includes (url ?req) ''googleapis''"
    by (simp add: protocol_of_def)
  from h default_branch_unreachable
         [of "[]" ?req "''https://zombie.example''" NetworkError "[]"]
  have "classify STATIC_FILES ?req = CacheFirst
      \<and> on_fetch ''https://zombie.example'' ?req NetworkError [] = cache_first ?req NetworkError []"
    by blast
  with h show ?thesis by (simp add: cache_first_def caches_match_def)
qed

text \<open>
  C4, as the spec states it: a request whose URL ends in a media extension is passed
  through. The second version of the listener has no such test:
  \<^verbatim>\<open>https://zombie.example/assets/zombies/zombie1.mp4\<close> ends in \<^verbatim>\<open>.mp4\<close> and is
  intercepted, by the cache-first branch.
\<close>

theorem media_passthrough_counterexample:
  "suffix ''.mp4'' ''https://zombie.example/assets/zombies/zombie1.mp4''
   \<and> classify STATIC_FILES
        \<lparr>url = ''https://zombie.example/assets/zombies/zombie1.mp4'', method = ''GET'', accept = None\<rparr>
       = CacheFirst"
  by (simp add: classify_def static_match_STATIC_FILES protocol_of_def suffix_to_prefix)

text \<open>
  C4, amended: the first version of the fetch listener does not intercept a request
  whose URL ends in \<^verbatim>\<open>.mp4\<close> or \<^verbatim>\<open>.mp3\<close> (it tests that the URL contains the
  extension). The second version has no media test: whatever the list of static files,
  it passes a request through exactly when the protocol is \<^verbatim>\<open>ws:\<close> or \<^verbatim>\<open>wss:\<close>.
\<close>

theorem media_passthrough_first_version_only:
  "(suffix ''.mp4'' (url req) \<or> suffix ''.mp3'' (url req)
      \<longrightarrow> fetch_v1 origin req net s = (NotIntercepted, s))
   \<and> (classify files req = Passthrough
        \<longleftrightarrow> protocol_of (url req) = ''ws:'' \<or> protocol_of (url req) = ''wss:'')"
proof -
  have "fetch_v1 origin req net s = (NotIntercepted, s)"
    if "suffix ''.mp4'' (url req) \<or> suffix ''.mp3'' (url req)"
  proof -
    from that have "str_includes (url req) ''.mp4'' \<or> str_includes (url req) ''.mp3''"
      by (blast intro: suffix_str_includes)
    then show ?thesis by (auto simp: fetch_v1_def)
  qed
  moreover have "classify files req = Passthrough
        \<longleftrightarrow> protocol_of (url req) = ''ws:'' \<or> protocol_of (url req) = ''wss:''"
    by (simp add: classify_def)
  ultimately show ?thesis by blast
qed

theorem media_passthrough_first_version_only_witness:
  "suffix ''.mp3'' ''https://zombie.example/assets/sounds/bite.mp3''
   \<and> fetch_v1 ''https://zombie.example''
        \<lparr>url = ''https://zombie.example/assets/sounds/bite.mp3'', method = ''GET'', accept = None\<rparr>
        NetworkError []
       = (NotIntercepted, [])
   \<and> classify STATIC_FILES
        \<lparr>url = ''https://zombie.example/assets/sounds/bite.mp3'', method = ''GET'', accept = None\<rparr>
       \<noteq> Passthrough"
proof -
  let ?req = "\<lparr>url = ''https://zombie.example/assets/sounds/bite.mp3'', method = ''GET'', accept = None\<rparr>"
  have h: "suffix ''.mp3'' (url ?req)" by (simp add: suffix_to_prefix)
  have p: "\<not> (protocol_of (url ?req) = ''ws:'' \<or> protocol_of (url ?req) = ''wss:'')"
    by (simp add: protocol_of_def)
  from h p media_passthrough_first_version_only
             [of ?req "''https://zombie.example''" NetworkError "[]" STATIC_FILES]
  have "fetch_v1 ''https://zombie.example'' ?req NetworkError [] = (NotIntercepted, [])
      \<and> classify STATIC_FILES ?req \<noteq> Passthrough"
    by blast
  with h show ?thesis by simp
qed

section \<open>The strategies of the fetch listener\<close>

lemma offline_error_fields:
  "status offline_error = 408 \<and> statusText offline_error = ''Offline'' \<and> body offline_error = []"
  by (simp add: offline_error_def)

lemma fetch_with_responds:
  assumes "classify files req \<noteq> Passthrough"
    and "net \<noteq> NetworkError \<or> caches_match req s \<noteq> None"
  shows "\<exists>r. fst (fetch_with files origin req net s) = Responded r"
  using assms
  by (cases "classify files req"; cases net; cases "caches_match req s")
     (auto simp: fetch_with_def network_first_api_def cache_first_def network_first_def)

lemma fetch_with_undefined:
  assumes "classify files req = CacheFirst \<or> classify files req = NetworkFirstApi"
    and "caches_match req s = None"
  shows "fetch_with files origin req NetworkError s = (RespondedUndefined, s)"
  using assms by (auto simp: fetch_with_def network_first_api_def cache_first_def)

lemma network_first_offline:
  assumes "caches_match req s = None" and "accept req = Some a"
  shows "\<exists>r. fst (network_first origin req NetworkError s) = Responded r"
    and "\<not> str_includes a ''text/html'' \<Longrightarrow>
           network_first origin req NetworkError s = (Responded offline_error, s)"
  using assms by (auto simp: network_first_def split: option.splits)

text \<open>
  C1, as the spec states it: every intercepted request gets some response. In the
  cache-first branch the \<^verbatim>\<open>catch\<close> of line 218 returns nothing: with an empty cache
  store and a failing network, the request for \<^verbatim>\<open>https://zombie.example/app.js\<close> is
  intercepted and answered with \<^verbatim>\<open>undefined\<close>, not with a response.
\<close>

theorem fetch_always_responds_counterexample:
  "on_fetch ''https://zombie.example''
     \<lparr>url = ''https://zombie.example/app.js'', method = ''GET'', accept = Some ''*/*''\<rparr> NetworkError []
   = (RespondedUndefined, [])"
  by (simp add: on_fetch_def fetch_with_def classify_def static_match_STATIC_FILES
      protocol_of_def cache_first_def caches_match_def)

text \<open>
  C1, amended: for every intercepted request the promise given to
  \<^verbatim>\<open>respondWith\<close> fulfils with a response whenever the network fetch succeeds or the
  cache store holds an entry for the request. When the fetch fails and no entry is
  cached, the cache-first branch and the \<^verbatim>\<open>firebase\<close>/\<^verbatim>\<open>googleapis\<close> branch fulfil
  with \<^verbatim>\<open>undefined\<close>; the last, network-first branch, for a request that carries an
  \<^verbatim>\<open>accept\<close> header, still fulfils with a response, which for a request that does
  not accept HTML is the synthesised 408 \<^verbatim>\<open>Offline\<close> response with an empty body.
\<close>

theorem fetch_settles:
  "(classify files req \<noteq> Passthrough
      \<and> (net \<noteq> NetworkError \<or> caches_match req s \<noteq> None)
     \<longrightarrow> (\<exists>r. fst (fetch_with files origin req net s) = Responded r))
   \<and> ((classify files req = CacheFirst \<or> classify files req = NetworkFirstApi)
      \<and> caches_match req s = None
     \<longrightarrow> fetch_with files origin req NetworkError s = (RespondedUndefined, s))
   \<and> (classify files req = NetworkFirstDefault
      \<and> caches_match req s = None \<and> accept req = Some a
     \<longrightarrow> (\<exists>r. fst (fetch_with files origin req NetworkError s) = Responded r)
        \<and> (\<not> str_includes a ''text/html''
            \<longrightarrow> fetch_with files origin req NetworkError s = (Responded offline_error, s)))
   \<and> status offline_error = 408 \<and> statusText offline_error = ''Offline''
   \<and> body offline_error = []"
proof -
  have d: "fetch_with files origin req NetworkError s = network_first origin req NetworkError s"
    if "classify files req = NetworkFirstDefault"
    using that by (simp add: fetch_with_def)
  show ?thesis
    using fetch_with_responds [of files req net s origin]
      fetch_with_undefined [of files req s origin]
      network_first_offline [of req s a origin] d offline_error_fields
    by metis
qed

theorem fetch_settles_witness:
  "classify [''/index.html'']
      \<lparr>url = ''https://zombie.example/index.html'', method = ''GET'', accept = Some ''text/html''\<rparr> = CacheFirst
   \<and> (\<exists>r. fst (fetch_with [''/index.html''] ''https://zombie.example''
        \<lparr>url = ''https://zombie.example/index.html'', method = ''GET'', accept = Some ''text/html''\<rparr>
        (Fulfilled \<lparr>status = 503, statusText = ''Service Unavailable'', body = [],
                    headers = [], resp_type = ''basic''\<rparr>) []) = Responded r)
   \<and> fetch_with [''/index.html''] ''https://zombie.example''
        \<lparr>url = ''https://zombie.example/index.html'', method = ''GET'', accept = Some ''text/html''\<rparr>
        NetworkError []
       = (RespondedUndefined, [])
   \<and> classify [''/index.html'']
      \<lparr>url = ''https://zombie.example/api/score'', method = ''GET'', accept = Some ''application/json''\<rparr>
       = NetworkFirstDefault
   \<and> fetch_with [''/index.html''] ''https://zombie.example''
        \<lparr>url = ''https://zombie.example/api/score'', method = ''GET'', accept = Some ''application/json''\<rparr>
        NetworkError []
       = (Responded offline_error, [])"
proof -
  let ?page = "\<lparr>url = ''https://zombie.example/index.html'', method = ''GET'', accept = Some ''text/html''\<rparr>"
  let ?api = "\<lparr>url = ''https://zombie.example/api/score'', method = ''GET'', accept = Some ''application/json''\<rparr>"
  let ?down = "\<lparr>status = 503, statusText = ''Service Unavailable'', body = [],
                 headers = [], resp_type = ''basic''\<rparr>"
  have c1: "classify [''/index.html''] ?page = CacheFirst"
    by (simp add: classify_def static_match_def basename_def protocol_of_def)
  have c2: "classify [''/index.html''] ?api = NetworkFirstDefault"
    by (simp add: classify_def static_match_def basename_def protocol_of_def)
  have m1: "caches_match ?page [] = None" and m2: "caches_match ?api [] = None"
    by (simp_all add: caches_match_def)
  have a2: "accept ?api = Some ''application/json''"
    and n2: "\<not> str_includes ''application/json'' ''text/html''"
    by simp_all
  have p1: "classify [''/index.html''] ?page \<noteq> Passthrough" by (simp add: c1)
  have f1: "Fulfilled ?down \<noteq> NetworkError" by simp
  from p1 f1
    fetch_settles [of "[''/index.html'']" ?page "Fulfilled ?down" "[]"
      "''https://zombie.example''"]
  have r0: "\<exists>r. fst (fetch_with [''/index.html''] ''https://zombie.example'' ?page
                       (Fulfilled ?down) []) = Responded r"
    by blast
  from c1 m1
    fetch_settles [of "[''/index.html'']" ?page NetworkError "[]" "''https://zombie.example''"]
  have r1: "fetch_with [''/index.html''] ''https://zombie.example'' ?page NetworkError []
              = (RespondedUndefined, [])"
    by blast
  from c2 m2 a2 n2
    fetch_settles [of "[''/index.html'']" ?api NetworkError "[]" "''https://zombie.example''"
      "''application/json''"]
  have r2: "fetch_with [''/index.html''] ''https://zombie.example'' ?api NetworkError []
              = (Responded offline_error, [])"
    by blast
  from c1 c2 r0 r1 r2 show ?thesis by blast
qed

lemma map_of_bucket_put: "map_of (bucket_put k r b) k = Some r"
  by (induction b) (auto simp: bucket_put_def)

lemma cache_entry_cache_put: "cache_entry name k (cache_put name k r s) = Some r"
  by (induction s) (auto simp: cache_entry_def map_of_bucket_put)

lemma cache_entry_cache_open: "cache_entry name k (cache_open name s) = cache_entry name k s"
proof (cases "name \<in> set (caches_keys s)")
  case True
  then show ?thesis by (simp add: cache_open_def)
next
  case False
  then have "map_of s name = None"
    by (simp add: caches_keys_def map_of_eq_None_iff)
  with False show ?thesis
    by (simp add: cache_open_def cache_entry_def map_add_def)
qed

lemma cache_entry_open_put:
  "cache_entry name (url req) (open_put name req resp s)
     = (if put_accepted req resp then Some resp else cache_entry name (url req) s)"
  by (simp add: open_put_def cache_entry_cache_put cache_entry_cache_open)

lemma network_first_api_fulfilled:
  "network_first_api req (Fulfilled resp) s =
     (Responded resp, if status resp = 200 then open_put DYNAMIC_CACHE req resp s else s)"
  by (simp add: network_first_api_def)

lemma network_first_fulfilled:
  "network_first origin req (Fulfilled resp) s =
     (Responded resp, if status resp = 200 then open_put DYNAMIC_CACHE req resp s else s)"
  by (simp add: network_first_def)

text \<open>
  C5, as the spec states it: after a network-first request answered with status 200,
  the dynamic cache holds an entry for the request. The listener passes every request
  to \<^verbatim>\<open>cache.put\<close>, which the platform rejects unless the method is \<^verbatim>\<open>GET\<close>:
  a \<^verbatim>\<open>POST\<close> to \<^verbatim>\<open>https://firestore.googleapis.com/v1/scores\<close> answered with
  status 200 is returned to the caller, the dynamic cache is opened, and it holds no
  entry for the request.
\<close>

theorem network_first_post_counterexample:
  "classify STATIC_FILES
      \<lparr>url = ''https://firestore.googleapis.com/v1/scores'', method = ''POST'',
       accept = Some ''*/*''\<rparr>
     = NetworkFirstApi
   \<and> on_fetch ''https://zombie.example''
        \<lparr>url = ''https://firestore.googleapis.com/v1/scores'', method = ''POST'',
         accept = Some ''*/*''\<rparr>
        (Fulfilled \<lparr>status = 200, statusText = ''OK'', body = ''[1,2]'',
                    headers = [(''content-type'', ''application/json'')],
                    resp_type = ''cors''\<rparr>) []
     = (Responded \<lparr>status = 200, statusText = ''OK'', body = ''[1,2]'',
                    headers = [(''content-type'', ''application/json'')],
                    resp_type = ''cors''\<rparr>,
        [(''zombie-dynamic-v2.0'', [])])
   \<and> cache_entry DYNAMIC_CACHE ''https://firestore.googleapis.com/v1/scores''
        [(''zombie-dynamic-v2.0'', [])]
     = None"
  by (simp add: on_fetch_def fetch_with_def classify_def protocol_of_def
      network_first_api_def open_put_def put_accepted_def cache_open_def caches_keys_def
      cache_entry_def DYNAMIC_CACHE_def)

text \<open>
  C5, amended: for every request routed network-first (by the
  \<^verbatim>\<open>firebase\<close>/\<^verbatim>\<open>googleapis\<close> branch or by the last branch) whose network fetch
  fulfils with status 200, the caller receives that very response. When the platform
  accepts the \<^verbatim>\<open>put\<close> (the method is \<^verbatim>\<open>GET\<close>, the URL is an \<^verbatim>\<open>http:\<close> or
  \<^verbatim>\<open>https:\<close> one, the response has no \<^verbatim>\<open>Vary: *\<close>), the dynamic cache
  afterwards holds the response under the request's key; otherwise the \<^verbatim>\<open>put\<close>
  is rejected and the dynamic cache holds for the key what it held before.
\<close>

theorem network_first_stores_200:
  assumes "classify files req = NetworkFirstApi \<or> classify files req = NetworkFirstDefault"
    and "status resp = 200"
    and "fetch_with files origin req (Fulfilled resp) s = (out, s')"
  shows "out = Responded resp
       \<and> (method req = ''GET''
            \<and> (protocol_of (url req) = ''http:'' \<or> protocol_of (url req) = ''https:'')
            \<and> \<not> vary_star resp
          \<longrightarrow> cache_entry DYNAMIC_CACHE (url req) s' = Some resp)
       \<and> (\<not> put_accepted req resp
          \<longrightarrow> cache_entry DYNAMIC_CACHE (url req) s'
                = cache_entry DYNAMIC_CACHE (url req) s)"
proof -
  from assms have out: "out = Responded resp"
    and s': "s' = open_put DYNAMIC_CACHE req resp s"
    by (auto simp: fetch_with_def network_first_api_fulfilled network_first_fulfilled)
  have acc: "put_accepted req resp"
    if "method req = ''GET''
        \<and> (protocol_of (url req) = ''http:'' \<or> protocol_of (url req) = ''https:'')
        \<and> \<not> vary_star resp"
    using that assms(2) by (simp add: put_accepted_def)
  from out s' acc show ?thesis by (auto simp: cache_entry_open_put)
qed

theorem network_first_stores_200_witness:
  "classify STATIC_FILES
      \<lparr>url = ''https://firestore.googleapis.com/v1/scores'', method = ''GET'',
       accept = Some ''*/*''\<rparr>
     = NetworkFirstApi
   \<and> fst (on_fetch ''https://zombie.example''
        \<lparr>url = ''https://firestore.googleapis.com/v1/scores'', method = ''GET'',
         accept = Some ''*/*''\<rparr>
        (Fulfilled \<lparr>status = 200, statusText = ''OK'', body = ''[1,2]'',
                    headers = [(''content-type'', ''application/json'')],
                    resp_type = ''cors''\<rparr>) [])
     = Responded \<lparr>status = 200, statusText = ''OK'', body = ''[1,2]'',
                    headers = [(''content-type'', ''application/json'')],
                    resp_type = ''cors''\<rparr>
   \<and> cache_entry DYNAMIC_CACHE ''https://firestore.googleapis.com/v1/scores''
       (snd (on_fetch ''https://zombie.example''
        \<lparr>url = ''https://firestore.googleapis.com/v1/scores'', method = ''GET'',
         accept = Some ''*/*''\<rparr>
        (Fulfilled \<lparr>status = 200, statusText = ''OK'', body = ''[1,2]'',
                    headers = [(''content-type'', ''application/json'')],
                    resp_type = ''cors''\<rparr>) []))
     = Some \<lparr>status = 200, statusText = ''OK'', body = ''[1,2]'',
               headers = [(''content-type'', ''application/json'')],
               resp_type = ''cors''\<rparr>"
proof -
  let ?req = "\<lparr>url = ''https://firestore.googleapis.com/v1/scores'', method = ''GET'',
                accept = Some ''*/*''\<rparr>"
  let ?resp = "\<lparr>status = 200, statusText = ''OK'', body = ''[1,2]'',
                 headers = [(''content-type'', ''application/json'')],
                 resp_type = ''cors''\<rparr>"
  let ?run = "on_fetch ''https://zombie.example'' ?req (Fulfilled ?resp) []"
  have c: "classify STATIC_FILES ?req = NetworkFirstApi"
    by (simp add: classify_def protocol_of_def)
  have st: "status ?resp = 200" by simp
  have acc: "method ?req = ''GET''
        \<and> (protocol_of (url ?req) = ''http:'' \<or> protocol_of (url ?req) = ''https:'')
        \<and> \<not> vary_star ?resp"
    by (simp add: protocol_of_def vary_star_def)
  have run: "fetch_with STATIC_FILES ''https://zombie.example'' ?req (Fulfilled ?resp) []
               = (fst ?run, snd ?run)"
    by (simp add: on_fetch_def)
  from network_first_stores_200 [OF disjI1 [OF c] st run] acc
  have "fst ?run = Responded ?resp
      \<and> cache_entry DYNAMIC_CACHE (url ?req) (snd ?run) = Some ?resp"
    by blast
  with c show ?thesis by simp
qed

lemma offline_page_fields:
  "status offline_page = 200 \<and> str_includes (body offline_page) ''Modo Offline''"
  by (simp add: offline_page_def)

lemma network_first_error:
  "network_first origin req NetworkError s =
     (case caches_match req s of
        Some cached \<Rightarrow> (Responded cached, s)
      | None \<Rightarrow>
          (case accept req of
             None \<Rightarrow> (Rejected, s)
           | Some a \<Rightarrow>
               (if str_includes a ''text/html'' then
                  (case match_url (origin @ ''/'') s of
                     Some homePage \<Rightarrow> (Responded homePage, s)
                   | None \<Rightarrow> (Responded offline_page, s))
                else (Responded offline_error, s))))"
  by (simp add: network_first_def)

lemma network_first_api_error:
  "network_first_api req NetworkError s =
     (case caches_match req s of
        Some cached \<Rightarrow> (Responded cached, s)
      | None \<Rightarrow> (RespondedUndefined, s))"
  by (simp add: network_first_api_def)

text \<open>
  C6, as the spec states it: a network-first request whose fetch fails gets the cached
  entry, else the offline page when it accepts HTML, else a 408. The
  \<^verbatim>\<open>firebase\<close>/\<^verbatim>\<open>googleapis\<close> branch is network-first and has only the first of
  the three: with nothing cached, a request for
  \<^verbatim>\<open>https://firestore.googleapis.com/v1/doc\<close> that accepts HTML is answered with
  \<^verbatim>\<open>undefined\<close>.
\<close>

theorem network_first_fallback_counterexample:
  "classify STATIC_FILES
     \<lparr>url = ''https://firestore.googleapis.com/v1/doc'', method = ''GET'', accept = Some ''text/html''\<rparr>
     = NetworkFirstApi
   \<and> on_fetch ''https://zombie.example''
     \<lparr>url = ''https://firestore.googleapis.com/v1/doc'', method = ''GET'', accept = Some ''text/html''\<rparr>
     NetworkError []
   = (RespondedUndefined, [])"
  by (simp add: on_fetch_def fetch_with_def classify_def
      protocol_of_def network_first_api_def caches_match_def)

text \<open>
  C6, amended: for every request handled by the last, network-first branch whose
  network fetch fails: if the cache store holds an entry for the request, that entry is
  returned; otherwise, if the \<^verbatim>\<open>accept\<close> header contains \<^verbatim>\<open>text/html\<close>, the cached
  root document (the entry of \<^verbatim>\<open>/\<close>) is returned when there is one, and else the
  synthesised offline page, with status 200; otherwise, if the request has an
  \<^verbatim>\<open>accept\<close> header, the synthesised response with status 408. For a request
  handled by the \<^verbatim>\<open>firebase\<close>/\<^verbatim>\<open>googleapis\<close> branch whose fetch fails, the cached
  entry is returned if there is one, and \<^verbatim>\<open>undefined\<close> otherwise.
\<close>

theorem network_first_fallback:
  "(classify files req = NetworkFirstDefault \<longrightarrow>
      (caches_match req s = Some cached
         \<longrightarrow> fetch_with files origin req NetworkError s = (Responded cached, s))
    \<and> (caches_match req s = None \<and> accept req = Some a \<and> str_includes a ''text/html''
          \<and> match_url (origin @ ''/'') s = Some homePage
         \<longrightarrow> fetch_with files origin req NetworkError s = (Responded homePage, s))
    \<and> (caches_match req s = None \<and> accept req = Some a \<and> str_includes a ''text/html''
          \<and> match_url (origin @ ''/'') s = None
         \<longrightarrow> fetch_with files origin req NetworkError s = (Responded offline_page, s))
    \<and> (caches_match req s = None \<and> accept req = Some a
          \<and> \<not> str_includes a ''text/html''
         \<longrightarrow> fetch_with files origin req NetworkError s = (Responded offline_error, s)))
   \<and> (classify files req = NetworkFirstApi \<longrightarrow>
      (caches_match req s = Some cached
         \<longrightarrow> fetch_with files origin req NetworkError s = (Responded cached, s))
    \<and> (caches_match req s = None
         \<longrightarrow> fetch_with files origin req NetworkError s = (RespondedUndefined, s)))
   \<and> status offline_page = 200 \<and> str_includes (body offline_page) ''Modo Offline''
   \<and> status offline_error = 408"
proof -
  have d: "fetch_with files origin req NetworkError s = network_first origin req NetworkError s"
    if "classify files req = NetworkFirstDefault"
    using that by (simp add: fetch_with_def)
  have e: "fetch_with files origin req NetworkError s = network_first_api req NetworkError s"
    if "classify files req = NetworkFirstApi"
    using that by (simp add: fetch_with_def)
  have "classify files req = NetworkFirstDefault \<longrightarrow>
      (caches_match req s = Some cached
         \<longrightarrow> fetch_with files origin req NetworkError s = (Responded cached, s))
    \<and> (caches_match req s = None \<and> accept req = Some a \<and> str_includes a ''text/html''
          \<and> match_url (origin @ ''/'') s = Some homePage
         \<longrightarrow> fetch_with files origin req NetworkError s = (Responded homePage, s))
    \<and> (caches_match req s = None \<and> accept req = Some a \<and> str_includes a ''text/html''
          \<and> match_url (origin @ ''/'') s = None
         \<longrightarrow> fetch_with files origin req NetworkError s = (Responded offline_page, s))
    \<and> (caches_match req s = None \<and> accept req = Some a
          \<and> \<not> str_includes a ''text/html''
         \<longrightarrow> fetch_with files origin req NetworkError s = (Responded offline_error, s))"
    by (simp add: d network_first_error)
  moreover have "classify files req = NetworkFirstApi \<longrightarrow>
      (caches_match req s = Some cached
         \<longrightarrow> fetch_with files origin req NetworkError s = (Responded cached, s))
    \<and> (caches_match req s = None
         \<longrightarrow> fetch_with files origin req NetworkError s = (RespondedUndefined, s))"
    by (simp add: e network_first_api_error)
  ultimately show ?thesis
    using offline_page_fields offline_error_fields by blast
qed

theorem network_first_fallback_witness:
  "classify [''/index.html'']
      \<lparr>url = ''https://zombie.example/play'', method = ''GET'', accept = Some ''text/html,*/*''\<rparr>
     = NetworkFirstDefault
   \<and> fetch_with [''/index.html''] ''https://zombie.example''
        \<lparr>url = ''https://zombie.example/play'', method = ''GET'', accept = Some ''text/html,*/*''\<rparr>
        NetworkError []
     = (Responded offline_page, [])
   \<and> classify [''/index.html'']
      \<lparr>url = ''https://zombie.example/api/score'', method = ''GET'', accept = Some ''application/json''\<rparr>
     = NetworkFirstDefault
   \<and> fetch_with [''/index.html''] ''https://zombie.example''
        \<lparr>url = ''https://zombie.example/api/score'', method = ''GET'', accept = Some ''application/json''\<rparr>
        NetworkError []
     = (Responded offline_error, [])"
proof -
  let ?page = "\<lparr>url = ''https://zombie.example/play'', method = ''GET'', accept = Some ''text/html,*/*''\<rparr>"
  let ?api = "\<lparr>url = ''https://zombie.example/api/score'', method = ''GET'', accept = Some ''application/json''\<rparr>"
  have c1: "classify [''/index.html''] ?page = NetworkFirstDefault"
    by (simp add: classify_def static_match_def basename_def protocol_of_def)
  have c2: "classify [''/index.html''] ?api = NetworkFirstDefault"
    by (simp add: classify_def static_match_def basename_def protocol_of_def)
  have m1: "caches_match ?page [] = None"
    and h1: "match_url (''https://zombie.example'' @ ''/'') [] = None"
    and m2: "caches_match ?api [] = None"
    by (simp_all add: caches_match_def)
  have a1: "accept ?page = Some ''text/html,*/*''"
    and y1: "str_includes ''text/html,*/*'' ''text/html''"
    and a2: "accept ?api = Some ''application/json''"
    and n2: "\<not> str_includes ''application/json'' ''text/html''"
    by simp_all
  from c1 m1 a1 y1 h1
    network_first_fallback [of "[''/index.html'']" ?page "[]" _ "''https://zombie.example''"
      "''text/html,*/*''"]
  have r1: "fetch_with [''/index.html''] ''https://zombie.example'' ?page NetworkError []
              = (Responded offline_page, [])"
    by blast
  from c2 m2 a2 n2
    network_first_fallback [of "[''/index.html'']" ?api "[]" _ "''https://zombie.example''"
      "''application/json''"]
  have r2: "fetch_with [''/index.html''] ''https://zombie.example'' ?api NetworkError []
              = (Responded offline_error, [])"
    by blast
  from c1 c2 r1 r2 show ?thesis by blast
qed

lemma network_first_api_store:
  "network_first_api req net s = (out, s') \<Longrightarrow>
     s' = s \<or> (\<exists>resp. net = Fulfilled resp \<and> status resp = 200
                \<and> s' = open_put DYNAMIC_CACHE req resp s)"
  by (auto simp: network_first_api_def split: fetch_result.splits option.splits if_splits)

lemma network_first_store:
  "network_first origin req net s = (out, s') \<Longrightarrow>
     s' = s \<or> (\<exists>resp. net = Fulfilled resp \<and> status resp = 200
                \<and> s' = open_put DYNAMIC_CACHE req resp s)"
  by (auto simp: network_first_def split: fetch_result.splits option.splits if_splits)

lemma cache_first_store:
  "cache_first req net s = (out, s') \<Longrightarrow>
     s' = s \<or> (\<exists>resp. net = Fulfilled resp \<and> status resp = 200
                \<and> s' = open_put STATIC_CACHE req resp s)"
  by (auto simp: cache_first_def split: fetch_result.splits option.splits if_splits)

lemma fetch_with_store:
  assumes "fetch_with files origin req net s = (out, s')"
  shows "s' = s \<or>
         (\<exists>resp. net = Fulfilled resp \<and> status resp = 200
            \<and> (s' = open_put STATIC_CACHE req resp s
               \<or> s' = open_put DYNAMIC_CACHE req resp s))"
proof (cases "classify files req")
  case Passthrough
  with assms show ?thesis by (simp add: fetch_with_def)
next
  case NetworkFirstApi
  with assms have "network_first_api req net s = (out, s')" by (simp add: fetch_with_def)
  from network_first_api_store [OF this] show ?thesis by blast
next
  case CacheFirst
  with assms have "cache_first req net s = (out, s')" by (simp add: fetch_with_def)
  from cache_first_store [OF this] show ?thesis by blast
next
  case NetworkFirstDefault
  with assms have "network_first origin req net s = (out, s')" by (simp add: fetch_with_def)
  from network_first_store [OF this] show ?thesis by blast
qed

lemma set_bucket_put: "set (bucket_put k r b) \<subseteq> insert (k, r) (set b)"
  by (auto simp: bucket_put_def)

lemma cache_put_entries:
  assumes "(n, b) \<in> set (cache_put name k r s)" and "(k', r') \<in> set b"
  shows "(\<exists>b0. (n, b0) \<in> set s \<and> (k', r') \<in> set b0) \<or> (n = name \<and> k' = k \<and> r' = r)"
  using assms
proof (induction s)
  case Nil
  then show ?case by simp
next
  case (Cons e s)
  obtain m c where e: "e = (m, c)" by (cases e)
  show ?case
  proof (cases "m = name")
    case True
    with Cons.prems e consider "(n, b) = (m, bucket_put k r c)" | "(n, b) \<in> set s"
      by auto
    then show ?thesis
    proof cases
      case 1
      with Cons.prems(2) set_bucket_put [of k r c]
      have "(k', r') = (k, r) \<or> (k', r') \<in> set c" by auto
      with 1 True e show ?thesis by auto
    next
      case 2
      with Cons.prems(2) show ?thesis by auto
    qed
  next
    case False
    with Cons.prems e consider "(n, b) = (m, c)" | "(n, b) \<in> set (cache_put name k r s)"
      by auto
    then show ?thesis
    proof cases
      case 1
      with Cons.prems(2) e show ?thesis by auto
    next
      case 2
      from Cons.IH [OF 2 Cons.prems(2)] show ?thesis by auto
    qed
  qed
qed

lemma open_put_entries:
  assumes "(n, b) \<in> set (open_put name req resp s)" and "(k', r') \<in> set b"
  shows "(\<exists>b0. (n, b0) \<in> set s \<and> (k', r') \<in> set b0)
         \<or> (n = name \<and> k' = url req \<and> r' = resp)"
proof (cases "put_accepted req resp")
  case True
  with assms(1) have "(n, b) \<in> set (cache_put name (url req) resp s)"
    by (simp add: open_put_def)
  from cache_put_entries [OF this assms(2)] show ?thesis .
next
  case False
  with assms(1) have "(n, b) \<in> set (cache_open name s)" by (simp add: open_put_def)
  then have "(n, b) \<in> set s \<or> b = []" by (auto simp: cache_open_def split: if_splits)
  with assms(2) show ?thesis by auto
qed

text \<open>
  C7: in every branch of the fetch listener, and in every state of the cache store, the
  only write is the \<^verbatim>\<open>put\<close> of the network's response, under the request's key,
  into the static or the dynamic cache, and it happens only when the fetch fulfilled
  with status 200 (a \<^verbatim>\<open>put\<close> that the platform rejects only opens the cache).
  After a failed fetch, or a response with another status, the cache store is what it
  was; and every entry the cache store holds after the event was there before it, or
  is the network's response of status 200.
\<close>

theorem put_only_from_200:
  assumes "fetch_with files origin req net s = (out, s')"
  shows "(s' = s \<or>
          (\<exists>resp. net = Fulfilled resp \<and> status resp = 200
             \<and> (s' = open_put STATIC_CACHE req resp s
                \<or> s' = open_put DYNAMIC_CACHE req resp s)))
       \<and> (net = NetworkError \<longrightarrow> s' = s)
       \<and> (\<forall>resp. net = Fulfilled resp \<and> status resp \<noteq> 200 \<longrightarrow> s' = s)
       \<and> (\<forall>n b k r. (n, b) \<in> set s' \<and> (k, r) \<in> set b \<longrightarrow>
             (\<exists>b0. (n, b0) \<in> set s \<and> (k, r) \<in> set b0)
             \<or> (net = Fulfilled r \<and> status r = 200 \<and> k = url req
                 \<and> (n = STATIC_CACHE \<or> n = DYNAMIC_CACHE)))"
proof -
  note st = fetch_with_store [OF assms]
  have "(\<exists>b0. (n, b0) \<in> set s \<and> (k, r) \<in> set b0)
             \<or> (net = Fulfilled r \<and> status r = 200 \<and> k = url req
                 \<and> (n = STATIC_CACHE \<or> n = DYNAMIC_CACHE))"
    if "(n, b) \<in> set s'" and "(k, r) \<in> set b" for n b k r
    using st
  proof
    assume "s' = s"
    with that show ?thesis by blast
  next
    assume "\<exists>resp. net = Fulfilled resp \<and> status resp = 200
            \<and> (s' = open_put STATIC_CACHE req resp s
               \<or> s' = open_put DYNAMIC_CACHE req resp s)"
    then obtain resp name where r: "net = Fulfilled resp" "status resp = 200"
      and s': "s' = open_put name req resp s"
      and name: "name = STATIC_CACHE \<or> name = DYNAMIC_CACHE"
      by blast
    from that(1) have "(n, b) \<in> set (open_put name req resp s)" by (simp add: s')
    from open_put_entries [OF this that(2)] r name show ?thesis by blast
  qed
  with st show ?thesis by auto
qed

theorem put_only_from_200_witness:
  "fetch_with STATIC_FILES ''https://zombie.example''
      \<lparr>url = ''https://zombie.example/missing.png'', method = ''GET'', accept = Some ''image/*''\<rparr>
      (Fulfilled \<lparr>status = 404, statusText = ''Not Found'', body = [], headers = [],
                  resp_type = ''basic''\<rparr>)
      [(''zombie-static-v2.0'', [])]
    = (Responded \<lparr>status = 404, statusText = ''Not Found'', body = [], headers = [],
                  resp_type = ''basic''\<rparr>,
       [(''zombie-static-v2.0'', [])])
   \<and> snd (fetch_with STATIC_FILES ''https://zombie.example''
      \<lparr>url = ''https://zombie.example/missing.png'', method = ''GET'', accept = Some ''image/*''\<rparr>
      NetworkError [(''zombie-static-v2.0'', [])])
    = [(''zombie-static-v2.0'', [])]"
proof -
  let ?req = "\<lparr>url = ''https://zombie.example/missing.png'', method = ''GET'', accept = Some ''image/*''\<rparr>"
  let ?resp = "\<lparr>status = 404, statusText = ''Not Found'', body = [], headers = [],
                 resp_type = ''basic''\<rparr>"
  let ?s = "[(''zombie-static-v2.0'', [])] :: cache_store"
  let ?run = "fetch_with STATIC_FILES ''https://zombie.example'' ?req NetworkError ?s"
  have c: "classify STATIC_FILES ?req = CacheFirst"
    by (simp add: classify_def static_match_STATIC_FILES protocol_of_def)
  have r1: "fetch_with STATIC_FILES ''https://zombie.example'' ?req (Fulfilled ?resp) ?s
              = (Responded ?resp, ?s)"
    by (simp add: fetch_with_def c cache_first_def caches_match_def)
  have r2: "?run = (fst ?run, snd ?run)" by simp
  from put_only_from_200 [OF r2] have "snd ?run = ?s" by blast
  with r1 show ?thesis by simp
qed

section \<open>Activation and the control messages\<close>

lemma caches_keys_cache_put_list:
  "caches_keys (cache_put name k r s)
     = (if name \<in> set (caches_keys s) then caches_keys s else caches_keys s @ [name])"
  by (induction s) (force simp: caches_keys_def)+

lemma caches_keys_cache_put:
  "set (caches_keys (cache_put name k r s)) = insert name (set (caches_keys s))"
  by (auto simp: caches_keys_cache_put_list)

lemma caches_keys_cache_open:
  "set (caches_keys (cache_open name s)) = insert name (set (caches_keys s))"
  by (auto simp: cache_open_def caches_keys_def)

lemma caches_keys_open_put:
  "set (caches_keys (open_put name req resp s)) = insert name (set (caches_keys s))"
  by (simp add: open_put_def caches_keys_cache_put caches_keys_cache_open)

lemma delete_each_filter:
  "delete_each rejecting ns s = filter (\<lambda>e. fst e \<notin> set ns \<or> fst e \<in> set rejecting) s"
proof (induction ns arbitrary: s)
  case Nil
  show ?case by simp
next
  case (Cons n ns)
  show ?case
  proof (cases "n \<in> set rejecting")
    case True
    then have "delete_each rejecting (n # ns) s
               = filter (\<lambda>e. fst e \<notin> set ns \<or> fst e \<in> set rejecting) s"
      by (simp add: Cons.IH)
    also have "\<dots> = filter (\<lambda>e. fst e \<notin> set (n # ns) \<or> fst e \<in> set rejecting) s"
      using True by (intro filter_cong) auto
    finally show ?thesis .
  next
    case False
    then have "delete_each rejecting (n # ns) s
               = filter (\<lambda>e. fst e \<notin> set ns \<or> fst e \<in> set rejecting)
                   (filter (\<lambda>e. fst e \<noteq> n) s)"
      by (simp add: Cons.IH caches_delete_def)
    also have "\<dots> = filter (\<lambda>e. fst e \<notin> set (n # ns) \<or> fst e \<in> set rejecting) s"
      using False by (simp, intro filter_cong) auto
    finally show ?thesis .
  qed
qed

lemma caches_keys_delete_each:
  "caches_keys (delete_each rejecting ns s)
     = filter (\<lambda>n. n \<notin> set ns \<or> n \<in> set rejecting) (caches_keys s)"
  by (simp add: delete_each_filter caches_keys_def filter_map comp_def)

lemma all_fulfil_iff: "all_fulfil rejecting names \<longleftrightarrow> set rejecting \<inter> set names = {}"
  by (auto simp: all_fulfil_def list_all_iff)

lemma set_prune: "set (prune names) = set names - {STATIC_CACHE, DYNAMIC_CACHE}"
  by (auto simp: prune_def)

lemma prune_Nil_iff: "prune names = [] \<longleftrightarrow> set names \<subseteq> {STATIC_CACHE, DYNAMIC_CACHE}"
  by (auto simp: prune_def filter_empty_conv)

lemma on_activate_claimed_keys:
  assumes "on_activate rejecting s0 = (True, s)"
  shows "set (caches_keys s) \<subseteq> {STATIC_CACHE, DYNAMIC_CACHE}"
proof -
  from assms have f: "set rejecting \<inter> set (prune (caches_keys s0)) = {}"
    and s: "s = delete_each rejecting (prune (caches_keys s0)) s0"
    by (auto simp: on_activate_def all_fulfil_iff)
  show ?thesis
  proof
    fix n assume "n \<in> set (caches_keys s)"
    then have "n \<in> set (caches_keys s0)"
      and "n \<notin> set (prune (caches_keys s0)) \<or> n \<in> set rejecting"
      by (auto simp: s caches_keys_delete_each)
    with f show "n \<in> {STATIC_CACHE, DYNAMIC_CACHE}"
      by (auto simp: set_prune)
  qed
qed

lemma on_fetch_keys:
  assumes "on_fetch origin req net s = (out, s')"
  shows "set (caches_keys s') \<subseteq> set (caches_keys s) \<union> {STATIC_CACHE, DYNAMIC_CACHE}"
  using fetch_with_store [of STATIC_FILES origin req net s out s'] assms
  by (auto simp: on_fetch_def caches_keys_open_put)

lemma on_message_keys:
  assumes "on_message rejecting msg s = (mout, s')"
  shows "set (caches_keys s') \<subseteq> set (caches_keys s)"
  using assms
  by (auto simp: on_message_def caches_keys_delete_each split: if_splits)

lemma reachable_keys:
  "reachable s \<Longrightarrow> set (caches_keys s) \<subseteq> {STATIC_CACHE, DYNAMIC_CACHE}"
proof (induction rule: reachable.induct)
  case (activated rejecting s0 s)
  then show ?case by (rule on_activate_claimed_keys)
next
  case (fetched s origin req net out s')
  with on_fetch_keys [OF fetched.hyps(2)] show ?case by blast
next
  case (messaged s rejecting msg mout s')
  with on_message_keys [OF messaged.hyps(2)] show ?case by blast
qed

lemma on_message_cache_info:
  assumes "on_message rejecting msg s = (Posted (CACHE_INFO names), s')"
  shows "names = caches_keys s"
  using assms by (auto simp: on_message_def split: if_splits)

text \<open>
  C8: in every state reachable after an activation that completed (all its deletions
  fulfilled, so the clients were claimed after the pruning), the cache store holds no
  cache other than the static and the dynamic one, and whatever list a
  \<^verbatim>\<open>GET_CACHE_INFO\<close> message is answered with names only those two.
\<close>

theorem no_stale_bucket_after_activation:
  assumes "reachable s"
  shows "set (caches_keys s) \<subseteq> {STATIC_CACHE, DYNAMIC_CACHE}
       \<and> (\<forall>rejecting msg names s'.
            on_message rejecting msg s = (Posted (CACHE_INFO names), s')
            \<longrightarrow> set names \<subseteq> {STATIC_CACHE, DYNAMIC_CACHE})"
  using reachable_keys [OF assms] on_message_cache_info by blast

theorem no_stale_bucket_after_activation_witness:
  "on_activate [] [(''zombie-survivor-v1'', []), (''zombie-static-v2.0'', [])]
     = (True, [(''zombie-static-v2.0'', [])])
   \<and> reachable [(''zombie-static-v2.0'', [])]
   \<and> set (caches_keys [(''zombie-static-v2.0'', [])]) \<subseteq> {STATIC_CACHE, DYNAMIC_CACHE}
   \<and> fst (on_message [] \<lparr>msg_type = Some ''GET_CACHE_INFO'', has_port = True\<rparr>
             [(''zombie-static-v2.0'', [])])
       = Posted (CACHE_INFO [''zombie-static-v2.0''])"
proof -
  let ?old = "[(''zombie-survivor-v1'', []), (''zombie-static-v2.0'', [])] :: cache_store"
  let ?s = "[(''zombie-static-v2.0'', [])] :: cache_store"
  have a: "on_activate [] ?old = (True, ?s)"
    by (simp add: on_activate_def all_fulfil_def prune_def caches_keys_def caches_delete_def
        STATIC_CACHE_def DYNAMIC_CACHE_def)
  then have r: "reachable ?s" by (rule reachable.activated)
  from no_stale_bucket_after_activation [OF r]
  have k: "set (caches_keys ?s) \<subseteq> {STATIC_CACHE, DYNAMIC_CACHE}" by blast
  have m: "fst (on_message [] \<lparr>msg_type = Some ''GET_CACHE_INFO'', has_port = True\<rparr> ?s)
             = Posted (CACHE_INFO [''zombie-static-v2.0''])"
    by (simp add: on_message_def caches_keys_def)
  from a r k m show ?thesis by blast
qed

text \<open>
  C9, as the spec states it: a deletion that fails during \<^verbatim>\<open>CLEAR_CACHE\<close> is
  ignored, the reply is still posted, and a \<^verbatim>\<open>GET_CACHE_INFO\<close> right after reports
  no cache. The listener passes the deletions to \<^verbatim>\<open>Promise.all\<close> and has no
  \<^verbatim>\<open>catch\<close>: when the deletion of the static cache rejects, the dynamic cache is
  still deleted, but no \<^verbatim>\<open>CACHE_CLEARED\<close> is posted, and the next
  \<^verbatim>\<open>GET_CACHE_INFO\<close> reports the static cache.
\<close>

theorem clear_cache_counterexample:
  "on_message [''zombie-static-v2.0''] \<lparr>msg_type = Some ''CLEAR_CACHE'', has_port = True\<rparr>
     [(''zombie-static-v2.0'', []), (''zombie-dynamic-v2.0'', [])]
   = (Unhandled, [(''zombie-static-v2.0'', [])])
   \<and> on_message [] \<lparr>msg_type = Some ''GET_CACHE_INFO'', has_port = True\<rparr>
     [(''zombie-static-v2.0'', [])]
   = (Posted (CACHE_INFO [''zombie-static-v2.0'']), [(''zombie-static-v2.0'', [])])"
  by (simp add: on_message_def all_fulfil_def caches_keys_def caches_delete_def)

lemma on_message_clear:
  assumes "msg_type msg = Some ''CLEAR_CACHE''"
  shows "on_message rejecting msg s =
           (if all_fulfil rejecting (caches_keys s) \<and> has_port msg then Posted CACHE_CLEARED
            else Unhandled,
            delete_each rejecting (caches_keys s) s)"
  using assms by (simp add: on_message_def)

lemma delete_each_all:
  "delete_each rejecting (caches_keys s) s = filter (\<lambda>e. fst e \<in> set rejecting) s"
  unfolding delete_each_filter by (rule filter_cong) (auto simp: caches_keys_def)

lemma filter_rejecting_Nil:
  "set rejecting \<inter> set (caches_keys s) = {} \<Longrightarrow> filter (\<lambda>e. fst e \<in> set rejecting) s = []"
  by (auto simp: filter_empty_conv caches_keys_def)

text \<open>
  C9, amended: for every cache-store state, handling \<^verbatim>\<open>CLEAR_CACHE\<close> starts the
  deletion of every cache, the current ones included, and every cache whose deletion
  fulfils is gone afterwards, whether or not another deletion rejects. The
  \<^verbatim>\<open>CACHE_CLEARED\<close> reply is posted exactly when a reply port was supplied and no
  deletion rejected; otherwise nothing is posted. When no deletion rejects, the cache
  store is empty afterwards and a \<^verbatim>\<open>GET_CACHE_INFO\<close> handled next reports the
  empty list.
\<close>

theorem clear_cache_deletes_all:
  assumes "msg_type msg = Some ''CLEAR_CACHE''"
  shows "snd (on_message rejecting msg s) = filter (\<lambda>e. fst e \<in> set rejecting) s
       \<and> (fst (on_message rejecting msg s) = Posted CACHE_CLEARED
            \<longleftrightarrow> has_port msg \<and> set rejecting \<inter> set (caches_keys s) = {})
       \<and> (fst (on_message rejecting msg s) = Posted CACHE_CLEARED
            \<or> fst (on_message rejecting msg s) = Unhandled)
       \<and> (set rejecting \<inter> set (caches_keys s) = {}
            \<longrightarrow> snd (on_message rejecting msg s) = []
              \<and> on_message rejecting' \<lparr>msg_type = Some ''GET_CACHE_INFO'', has_port = True\<rparr>
                    (snd (on_message rejecting msg s))
                  = (Posted (CACHE_INFO []), []))"
proof -
  have a: "snd (on_message rejecting msg s) = filter (\<lambda>e. fst e \<in> set rejecting) s"
    by (simp add: on_message_clear [OF assms] delete_each_all)
  have b: "fst (on_message rejecting msg s) = Posted CACHE_CLEARED
            \<longleftrightarrow> has_port msg \<and> set rejecting \<inter> set (caches_keys s) = {}"
    by (auto simp: on_message_clear [OF assms] all_fulfil_iff)
  have c: "fst (on_message rejecting msg s) = Posted CACHE_CLEARED
            \<or> fst (on_message rejecting msg s) = Unhandled"
    by (simp add: on_message_clear [OF assms])
  have g: "on_message rejecting' \<lparr>msg_type = Some ''GET_CACHE_INFO'', has_port = True\<rparr> []
             = (Posted (CACHE_INFO []), [])"
    by (simp add: on_message_def caches_keys_def)
  have d: "snd (on_message rejecting msg s) = []
              \<and> on_message rejecting' \<lparr>msg_type = Some ''GET_CACHE_INFO'', has_port = True\<rparr>
                    (snd (on_message rejecting msg s))
                  = (Posted (CACHE_INFO []), [])"
    if "set rejecting \<inter> set (caches_keys s) = {}"
    using g by (simp add: a filter_rejecting_Nil [OF that])
  from a b c d show ?thesis by blast
qed

theorem clear_cache_deletes_all_witness:
  "on_message [] \<lparr>msg_type = Some ''CLEAR_CACHE'', has_port = True\<rparr>
     [(''zombie-static-v2.0'', []), (''zombie-dynamic-v2.0'', [])]
   = (Posted CACHE_CLEARED, [])"
proof -
  let ?msg = "\<lparr>msg_type = Some ''CLEAR_CACHE'', has_port = True\<rparr>"
  let ?s = "[(''zombie-static-v2.0'', []), (''zombie-dynamic-v2.0'', [])] :: cache_store"
  have t: "msg_type ?msg = Some ''CLEAR_CACHE''" and p: "has_port ?msg" by simp_all
  have e: "set [] \<inter> set (caches_keys ?s) = {}" by simp
  from clear_cache_deletes_all [OF t, of "[]" ?s] p e
  have "fst (on_message [] ?msg ?s) = Posted CACHE_CLEARED \<and> snd (on_message [] ?msg ?s) = []"
    by blast
  then show ?thesis by (simp add: prod_eq_iff)
qed

lemma prune_filter_current:
  "prune (filter (\<lambda>n. n \<notin> set (prune names) \<or> n \<in> set rejecting) names)
     = filter (\<lambda>n. n \<in> set rejecting) (prune names)"
  unfolding prune_def filter_filter by (rule filter_cong) auto

text \<open>
  C10: for every cache store, the activation deletes exactly the caches whose names
  are outside the current pair (those of them whose deletion fulfils are gone, the
  current ones stay), and an activation run again right afterwards asks for no
  deletion that the first run had not asked for: only for those that rejected. When
  the first run's deletions all fulfilled, the second run deletes nothing and leaves
  the cache store as it is.
\<close>

theorem prune_idempotent:
  "set (prune (caches_keys s)) = set (caches_keys s) - {STATIC_CACHE, DYNAMIC_CACHE}
   \<and> snd (on_activate rejecting s)
       = filter (\<lambda>e. fst e \<notin> set (prune (caches_keys s)) \<or> fst e \<in> set rejecting) s
   \<and> prune (caches_keys (snd (on_activate rejecting s)))
       = filter (\<lambda>n. n \<in> set rejecting) (prune (caches_keys s))
   \<and> (on_activate rejecting s = (True, s')
       \<longrightarrow> caches_keys s'
             = filter (\<lambda>n. n = STATIC_CACHE \<or> n = DYNAMIC_CACHE) (caches_keys s)
           \<and> prune (caches_keys s') = []
           \<and> on_activate rejecting' s' = (True, s'))"
proof -
  have a: "set (prune (caches_keys s)) = set (caches_keys s) - {STATIC_CACHE, DYNAMIC_CACHE}"
    by (rule set_prune)
  have b: "snd (on_activate rejecting s)
       = filter (\<lambda>e. fst e \<notin> set (prune (caches_keys s)) \<or> fst e \<in> set rejecting) s"
    by (simp add: on_activate_def delete_each_filter)
  have c: "prune (caches_keys (snd (on_activate rejecting s)))
       = filter (\<lambda>n. n \<in> set rejecting) (prune (caches_keys s))"
    by (simp only: on_activate_def snd_conv caches_keys_delete_each prune_filter_current)
  have d: "caches_keys s'
             = filter (\<lambda>n. n = STATIC_CACHE \<or> n = DYNAMIC_CACHE) (caches_keys s)
           \<and> prune (caches_keys s') = []
           \<and> on_activate rejecting' s' = (True, s')"
    if act: "on_activate rejecting s = (True, s')"
  proof -
    from act have f: "set rejecting \<inter> set (prune (caches_keys s)) = {}"
      and s': "s' = delete_each rejecting (prune (caches_keys s)) s"
      by (auto simp: on_activate_def all_fulfil_iff)
    have "caches_keys s'
            = filter (\<lambda>n. n \<notin> set (prune (caches_keys s)) \<or> n \<in> set rejecting) (caches_keys s)"
      by (simp add: s' caches_keys_delete_each)
    also have "\<dots> = filter (\<lambda>n. n = STATIC_CACHE \<or> n = DYNAMIC_CACHE) (caches_keys s)"
      using f by (intro filter_cong) (auto simp: set_prune)
    finally have k: "caches_keys s'
            = filter (\<lambda>n. n = STATIC_CACHE \<or> n = DYNAMIC_CACHE) (caches_keys s)" .
    have p: "prune (caches_keys s') = []"
      using on_activate_claimed_keys [OF act] by (simp add: prune_Nil_iff)
    have "on_activate rejecting' s' = (True, s')"
      by (simp add: on_activate_def p all_fulfil_def)
    with k p show ?thesis by blast
  qed
  from a b c d show ?thesis by blast
qed

theorem prune_idempotent_witness:
  "on_activate []
      [(''zombie-survivor-v1'', []), (''zombie-static-v2.0'', []), (''zombie-dynamic-v1.0'', [])]
     = (True, [(''zombie-static-v2.0'', [])])
   \<and> prune (caches_keys [(''zombie-static-v2.0'', [])]) = []
   \<and> on_activate [''zombie-static-v2.0''] [(''zombie-static-v2.0'', [])]
     = (True, [(''zombie-static-v2.0'', [])])"
proof -
  let ?old = "[(''zombie-survivor-v1'', []), (''zombie-static-v2.0'', []),
              (''zombie-dynamic-v1.0'', [])] :: cache_store"
  let ?s = "[(''zombie-static-v2.0'', [])] :: cache_store"
  have a: "on_activate [] ?old = (True, ?s)"
    by (simp add: on_activate_def all_fulfil_def prune_def caches_keys_def caches_delete_def
        STATIC_CACHE_def DYNAMIC_CACHE_def)
  from a prune_idempotent [of ?old "[]" ?s "[''zombie-static-v2.0'']"]
  have "prune (caches_keys ?s) = [] \<and> on_activate [''zombie-static-v2.0''] ?s = (True, ?s)"
    by blast
  with a show ?thesis by blast
qed

end
